theory Spec2Isabelle
  imports Main
begin

section \<open>Common ground: exceptions and strings\<close>

text \<open>
  The exceptions the two modules raise, as values. A function that can raise returns
  \<open>error + 'a\<close>, with \<open>Inl\<close> carrying the exception.
\<close>

datatype error =
    KeyError string
  | AttributeError string
  | InvalidId string
  | DuplicateKeyError

text \<open>
  \<^verbatim>\<open>str.lower()\<close> on ASCII strings: each of the letters \<open>A\<close> to \<open>Z\<close> moves to its small
  letter, every other character stays.
\<close>

definition lower_char :: "char \<Rightarrow> char" where
  "lower_char c =
     (case map_of (zip ''ABCDEFGHIJKLMNOPQRSTUVWXYZ'' ''abcdefghijklmnopqrstuvwxyz'') c of
        None \<Rightarrow> c
      | Some d \<Rightarrow> d)"

definition lower :: "string \<Rightarrow> string" where
  "lower s = map lower_char s"

section \<open>The storage socket (base\_mongo\_socket.py)\<close>

subsection \<open>Documents and tables\<close>

text \<open>
  A document of the \<open>users\<close> table, with the three keys \<open>add_user\<close> writes:
  \<^verbatim>\<open>{"username": username, "password": hashed, "permissions": permissions}\<close>.
\<close>

record user =
  username :: string
  password :: string
  permissions :: "string list"

text \<open>
  A document of the \<open>queue_managers\<close> table, with the keys \<open>manager_update\<close> writes.
  The key of the modification date is spelled \<open>modifed_on\<close> in the source.
\<close>

record manager =
  mgr_name :: string
  created_on :: nat
  mgr_tag :: "string option"
  modifed_on :: nat
  submitted :: int
  completed :: int
  returned :: int
  failures :: int

text \<open>
  The socket object: the bypass flag set by the constructor and the tables reached
  through \<^verbatim>\<open>self._tables[...]\<close>. The \<open>service_queue\<close> table is only ever handed to
  \<open>bulk_write\<close>, so its content stays abstract.
\<close>

record 'q socket =
  bypass_security :: bool
  users :: "user list"
  queue_managers :: "manager list"
  service_queue :: 'q

subsection \<open>The driver calls the socket makes\<close>

text \<open>\<^verbatim>\<open>find_one({"username": username})\<close>: the first document with that username, or None.\<close>

definition find_one :: "user list \<Rightarrow> string \<Rightarrow> user option" where
  "find_one tbl n = find (\<lambda>u. username u = n) tbl"

text \<open>
  Modelled from the spec: the unique index on \<open>username\<close> of the \<open>users\<close> table is
  created outside this file; the spec's data model gives "User: username (unique)".
  \<^verbatim>\<open>insert_one\<close> therefore raises DuplicateKeyError when a document with the same username
  is stored, and appends the document otherwise.
\<close>

definition insert_one :: "user list \<Rightarrow> user \<Rightarrow> error + user list" where
  "insert_one tbl u =
     (case find_one tbl (username u) of
        Some v \<Rightarrow> Inl DuplicateKeyError
      | None \<Rightarrow> Inr (tbl @ [u]))"

text \<open>
  \<^verbatim>\<open>update_one(filter, update, upsert=...)\<close>. The first document matching the filter is
  updated (\<open>upd\<close> stands for the \<^verbatim>\<open>$set\<close> and \<^verbatim>\<open>$inc\<close> parts) and the result reports
  \<open>matched_count = 1\<close>. When no document matches, nothing is matched: the result
  reports \<open>matched_count = 0\<close>, and with \<open>upsert\<close> the document \<open>ins\<close> (the filter's
  fields, \<^verbatim>\<open>$setOnInsert\<close>, \<^verbatim>\<open>$set\<close>, and \<^verbatim>\<open>$inc\<close> applied to absent fields) is inserted.
\<close>

record update_result =
  matched_count :: nat
  upserted :: bool

fun update_first :: "('d \<Rightarrow> bool) \<Rightarrow> ('d \<Rightarrow> 'd) \<Rightarrow> 'd list \<Rightarrow> 'd list option" where
  "update_first p f [] = None"
| "update_first p f (d # ds) =
     (if p d then Some (f d # ds) else map_option ((#) d) (update_first p f ds))"

definition update_one ::
  "('d \<Rightarrow> bool) \<Rightarrow> ('d \<Rightarrow> 'd) \<Rightarrow> 'd \<Rightarrow> bool \<Rightarrow> 'd list \<Rightarrow> update_result \<times> 'd list" where
  "update_one flt upd ins upsert tbl =
     (case update_first flt upd tbl of
        Some tbl' \<Rightarrow> (\<lparr>matched_count = 1, upserted = False\<rparr>, tbl')
      | None \<Rightarrow>
          if upsert then (\<lparr>matched_count = 0, upserted = True\<rparr>, tbl @ [ins])
          else (\<lparr>matched_count = 0, upserted = False\<rparr>, tbl))"

subsection \<open>Queue managers\<close>

text \<open>
  \<open>manager_update\<close>; \<open>dt\<close> is the value of \<^verbatim>\<open>datetime.datetime.utcnow()\<close> at the call.
  The defaults of the source are \<open>tag = None\<close> and 0 for the four counters.
\<close>

definition manager_update ::
  "'q socket \<Rightarrow> nat \<Rightarrow> string \<Rightarrow> string option \<Rightarrow> int \<Rightarrow> int \<Rightarrow> int \<Rightarrow> int
     \<Rightarrow> bool \<times> 'q socket" where
  "manager_update self dt name tag d_sub d_comp d_fail d_ret =
     (let (r, tbl) =
        update_one
          (\<lambda>m. mgr_name m = name)
          (\<lambda>m. m\<lparr>modifed_on := dt,
                 submitted := submitted m + d_sub,
                 completed := completed m + d_comp,
                 returned := returned m + d_ret,
                 failures := failures m + d_fail\<rparr>)
          \<lparr>mgr_name = name, created_on = dt, mgr_tag = tag, modifed_on = dt,
            submitted = d_sub, completed = d_comp, returned = d_ret, failures = d_fail\<rparr>
          True
          (queue_managers self)
      in (matched_count r = 1, self\<lparr>queue_managers := tbl\<rparr>))"

text \<open>Reading a manager back: the first document with the given name.\<close>

definition get_manager :: "'q socket \<Rightarrow> string \<Rightarrow> manager option" where
  "get_manager self name = find (\<lambda>m. mgr_name m = name) (queue_managers self)"

subsection \<open>Users\<close>

text \<open>
  \<open>bcrypt\<close> is outside the file: \<open>hashpw\<close> and \<open>checkpw\<close> are parameters, and the salt
  \<^verbatim>\<open>bcrypt.gensalt(6)\<close> draws is an argument.
\<close>

definition add_user ::
  "(string \<Rightarrow> string \<Rightarrow> string) \<Rightarrow> string \<Rightarrow> 'q socket \<Rightarrow> string \<Rightarrow> string
     \<Rightarrow> string list option \<Rightarrow> error + (bool \<times> 'q socket)" where
  "add_user hashpw salt self uname pw perms =
     (let permissions = (case perms of None \<Rightarrow> [''read''] | Some p \<Rightarrow> p);
          hashed = hashpw pw salt
      in case insert_one (users self)
                \<lparr>username = uname, password = hashed, permissions = permissions\<rparr> of
           Inr tbl \<Rightarrow> Inr (True, self\<lparr>users := tbl\<rparr>)
         | Inl e \<Rightarrow> (case e of DuplicateKeyError \<Rightarrow> Inr (False, self) | _ \<Rightarrow> Inl e))"

definition verify_user ::
  "(string \<Rightarrow> string \<Rightarrow> bool) \<Rightarrow> 'q socket \<Rightarrow> string \<Rightarrow> string \<Rightarrow> string
     \<Rightarrow> bool \<times> string" where
  "verify_user checkpw self uname pw permission =
     (if bypass_security self then (True, ''Success'')
      else
        case find_one (users self) uname of
          None \<Rightarrow> (False, ''User not found.'')
        | Some data \<Rightarrow>
            if \<not> checkpw pw (password data) then (False, ''Incorrect password.'')
            else if lower permission \<notin> set (permissions data)
                    \<and> ''admin'' \<notin> set (permissions data)
              then (False, ''User has insufficient permissions.'')
            else (True, ''Success''))"

subsection \<open>Hooks\<close>

text \<open>
  A hook as \<open>handle_hooks\<close> reads it: \<^verbatim>\<open>hook["document"]\<close> is a pair whose second
  component is the identifier of the service record, \<^verbatim>\<open>hook["updates"]\<close> a list of
  triples (operation, field, value). An \<^verbatim>\<open>UpdateOne\<close> holds the identifier of its filter
  \<^verbatim>\<open>{"_id": ...}\<close> and the update document, a dictionary from operator to the
  one-entry dictionary \<^verbatim>\<open>{field: value}\<close>.
\<close>

record 'v hook =
  document :: "string \<times> string"
  updates :: "(string \<times> string \<times> 'v) list"

record ('i, 'v) UpdateOne =
  upd_id :: 'i
  upd_commands :: "string \<rightharpoonup> (string \<times> 'v)"

text \<open>The innermost loop: \<^verbatim>\<open>commands["$" + com[0]] = {com[1]: com[2]}\<close>.\<close>

fun hook_commands ::
  "(string \<times> string \<times> 'v) list \<Rightarrow> (string \<rightharpoonup> (string \<times> 'v)) \<Rightarrow> (string \<rightharpoonup> (string \<times> 'v))" where
  "hook_commands [] commands = commands"
| "hook_commands (com # coms) commands =
     hook_commands coms (commands(''$'' @ fst com \<mapsto> (fst (snd com), snd (snd com))))"

text \<open>
  The two outer loops, appending one \<^verbatim>\<open>UpdateOne\<close> per hook to \<open>bulk_commands\<close>. The
  constructor \<^verbatim>\<open>ObjectId\<close> of the bson library is the parameter \<open>oid\<close>; it raises on a
  string that is no identifier.
\<close>

fun hook_list_loop ::
  "(string \<Rightarrow> error + 'i) \<Rightarrow> 'v hook list \<Rightarrow> ('i, 'v) UpdateOne list
     \<Rightarrow> error + ('i, 'v) UpdateOne list" where
  "hook_list_loop oid [] bulk_commands = Inr bulk_commands"
| "hook_list_loop oid (hook # rest) bulk_commands =
     (let commands = hook_commands (updates hook) Map.empty
      in case oid (snd (document hook)) of
           Inl e \<Rightarrow> Inl e
         | Inr i \<Rightarrow>
             hook_list_loop oid rest
               (bulk_commands @ [\<lparr>upd_id = i, upd_commands = commands\<rparr>]))"

fun hooks_loop ::
  "(string \<Rightarrow> error + 'i) \<Rightarrow> 'v hook list list \<Rightarrow> ('i, 'v) UpdateOne list
     \<Rightarrow> error + ('i, 'v) UpdateOne list" where
  "hooks_loop oid [] bulk_commands = Inr bulk_commands"
| "hooks_loop oid (hook_list # rest) bulk_commands =
     (case hook_list_loop oid hook_list bulk_commands of
        Inl e \<Rightarrow> Inl e
      | Inr bulk_commands' \<Rightarrow> hooks_loop oid rest bulk_commands')"

text \<open>
  \<open>handle_hooks\<close>: nothing is written and None is returned when no command was built;
  otherwise the commands go to \<^verbatim>\<open>bulk_write(bulk_commands, ordered=False)\<close> of the
  driver (the parameter \<open>bulk_write\<close>) in one call, and its result is returned.
\<close>

definition handle_hooks ::
  "(string \<Rightarrow> error + 'i) \<Rightarrow> ('q \<Rightarrow> ('i, 'v) UpdateOne list \<Rightarrow> 'r \<times> 'q)
     \<Rightarrow> 'q socket \<Rightarrow> 'v hook list list \<Rightarrow> error + ('r option \<times> 'q socket)" where
  "handle_hooks oid bulk_write self hooks =
     (case hooks_loop oid hooks [] of
        Inl e \<Rightarrow> Inl e
      | Inr bulk_commands \<Rightarrow>
          if length bulk_commands = 0 then Inr (None, self)
          else (let (ret, q) = bulk_write (service_queue self) bulk_commands
                in Inr (Some ret, self\<lparr>service_queue := q\<rparr>)))"

text \<open>
  The spec's wording, for comparison with the code: the commands aimed at one record
  are merged into a single update against it, so no two updates of one call carry the
  same identifier.
\<close>

definition single_update_per_record :: "('i, 'v) UpdateOne list \<Rightarrow> bool" where
  "single_update_per_record bulk_commands = distinct (map upd_id bulk_commands)"

section \<open>The torsion-drive dataset (torsiondrive\_dataset.py)\<close>

subsection \<open>Data model\<close>

text \<open>
  The payloads the dataset only passes on (keywords, attributes, the two
  sub-specifications) are type parameters. Identifiers are strings.
\<close>

type_synonym ObjectId = string

record ('k, 'a) TDRecord =
  name :: string
  initial_molecules :: "ObjectId list"
  td_keywords :: 'k
  attributes :: 'a
  object_map :: "string \<rightharpoonup> ObjectId"

record ('o, 'q) TorsionDriveSpecification =
  spec_name :: string
  description :: "string option"
  optimization_spec :: 'o
  qc_spec :: 'q

record ('k, 'o, 'q) TorsionDriveInput =
  initial_molecule :: "ObjectId list"
  in_keywords :: 'k
  in_optimization_spec :: 'o
  in_qc_spec :: 'q

text \<open>
  \<open>records\<close> is a dictionary whose values the loop of \<open>compute\<close> visits in insertion
  order: an association list.
\<close>

record ('k, 'a, 'o, 'q) DataModel =
  records :: "(string \<times> ('k, 'a) TDRecord) list"
  history :: "string set"
  specs :: "string \<rightharpoonup> ('o, 'q) TorsionDriveSpecification"

subsection \<open>compute\<close>

text \<open>
  Modelled from the spec: \<open>get_specification\<close> is a method of the base class, which is
  not in the source tree; the spec has "Resolve specification by name
  (case-normalized); fail with NotFound if absent".
\<close>

definition get_specification ::
  "('k, 'a, 'o, 'q) DataModel \<Rightarrow> string \<Rightarrow> error + ('o, 'q) TorsionDriveSpecification" where
  "get_specification data nm =
     (case specs data (lower nm) of
        None \<Rightarrow> Inl (KeyError nm)
      | Some spec \<Rightarrow> Inr spec)"

text \<open>
  The body of the loop for one record. The portal client is the parameter
  \<open>add_service\<close>: it takes the client's state, the service and the tag and priority,
  and gives the first identifier of its response (\<^verbatim>\<open>.ids[0]\<close>) and the new state.
\<close>

definition compute_record ::
  "('c \<Rightarrow> ('k, 'o, 'q) TorsionDriveInput \<Rightarrow> string option \<Rightarrow> string option \<Rightarrow> ObjectId \<times> 'c)
     \<Rightarrow> string \<Rightarrow> ('o, 'q) TorsionDriveSpecification \<Rightarrow> string set option
     \<Rightarrow> string option \<Rightarrow> string option
     \<Rightarrow> ('k, 'a) TDRecord \<Rightarrow> 'c \<Rightarrow> nat \<Rightarrow> ('k, 'a) TDRecord \<times> 'c \<times> nat" where
  "compute_record add_service specification spec subset' tag priority rec client n =
     (if specification \<in> dom (object_map rec) then (rec, client, n)
      else if (case subset' of None \<Rightarrow> False | Some s \<Rightarrow> name rec \<notin> s) then (rec, client, n)
      else
        (let service = \<lparr>initial_molecule = initial_molecules rec,
                        in_keywords = td_keywords rec,
                        in_optimization_spec = optimization_spec spec,
                        in_qc_spec = qc_spec spec\<rparr>;
             (new_id, client') = add_service client service tag priority
         in (rec\<lparr>object_map := (object_map rec)(specification \<mapsto> new_id)\<rparr>, client', n + 1)))"

fun compute_loop ::
  "('c \<Rightarrow> ('k, 'o, 'q) TorsionDriveInput \<Rightarrow> string option \<Rightarrow> string option \<Rightarrow> ObjectId \<times> 'c)
     \<Rightarrow> string \<Rightarrow> ('o, 'q) TorsionDriveSpecification \<Rightarrow> string set option
     \<Rightarrow> string option \<Rightarrow> string option
     \<Rightarrow> (string \<times> ('k, 'a) TDRecord) list \<Rightarrow> 'c \<Rightarrow> nat
     \<Rightarrow> (string \<times> ('k, 'a) TDRecord) list \<times> 'c \<times> nat" where
  "compute_loop add_service specification spec subset' tag priority [] client n =
     ([], client, n)"
| "compute_loop add_service specification spec subset' tag priority ((key, rec) # rest) client n =
     (case compute_record add_service specification spec subset' tag priority rec client n of
        (rec', client', n') \<Rightarrow>
          (case compute_loop add_service specification spec subset' tag priority rest client' n' of
             (rest', client'', n'') \<Rightarrow> ((key, rec') # rest', client'', n'')))"

text \<open>
  \<open>compute\<close>. The subset is a set already (\<^verbatim>\<open>set(subset)\<close> changes nothing); \<open>None\<close> is
  the omitted argument. \<open>save\<close> stands for \<^verbatim>\<open>self.save()\<close>, which hands the data to the
  client. The result is the number of submissions, the updated data and the client.
\<close>

definition compute ::
  "('c \<Rightarrow> ('k, 'o, 'q) TorsionDriveInput \<Rightarrow> string option \<Rightarrow> string option \<Rightarrow> ObjectId \<times> 'c)
     \<Rightarrow> (('k, 'a, 'o, 'q) DataModel \<Rightarrow> 'c \<Rightarrow> 'c)
     \<Rightarrow> ('k, 'a, 'o, 'q) DataModel \<Rightarrow> 'c
     \<Rightarrow> string \<Rightarrow> string set option \<Rightarrow> string option \<Rightarrow> string option
     \<Rightarrow> error + (nat \<times> ('k, 'a, 'o, 'q) DataModel \<times> 'c)" where
  "compute add_service save data client specification0 subset' tag priority =
     (let specification = lower specification0
      in case get_specification data specification of
           Inl e \<Rightarrow> Inl e
         | Inr spec \<Rightarrow>
             (case compute_loop add_service specification spec subset' tag priority
                     (records data) client 0 of
                (recs, client', n) \<Rightarrow>
                  (let data' = data\<lparr>records := recs,
                                     history := insert specification (history data)\<rparr>
                   in Inr (n, data', save data' client'))))"

text \<open>
  A sequence of calls of \<open>compute\<close>, each with its own arguments. A call that raises
  leaves the data and the client as they were.
\<close>

record compute_call =
  call_specification :: string
  call_subset :: "string set option"
  call_tag :: "string option"
  call_priority :: "string option"

fun compute_calls ::
  "('c \<Rightarrow> ('k, 'o, 'q) TorsionDriveInput \<Rightarrow> string option \<Rightarrow> string option \<Rightarrow> ObjectId \<times> 'c)
     \<Rightarrow> (('k, 'a, 'o, 'q) DataModel \<Rightarrow> 'c \<Rightarrow> 'c)
     \<Rightarrow> ('k, 'a, 'o, 'q) DataModel \<Rightarrow> 'c \<Rightarrow> compute_call list
     \<Rightarrow> ('k, 'a, 'o, 'q) DataModel \<times> 'c" where
  "compute_calls add_service save data client [] = (data, client)"
| "compute_calls add_service save data client (c # cs) =
     (case compute add_service save data client (call_specification c) (call_subset c)
             (call_tag c) (call_priority c) of
        Inl e \<Rightarrow> compute_calls add_service save data client cs
      | Inr (n, data', client') \<Rightarrow> compute_calls add_service save data' client' cs)"

subsection \<open>counts\<close>

text \<open>
  What \<open>counts\<close> reads of a torsion drive: its status, \<^verbatim>\<open>optimization_history\<close> (per grid
  point, the identifiers of the optimizations run there) and the result of
  \<^verbatim>\<open>get_history()\<close> (per grid point, those optimizations, each with its trajectory).
\<close>

record OptimizationRecord =
  trajectory :: "ObjectId list"

record TorsionDriveRecord =
  status :: string
  optimization_history :: "(string \<times> ObjectId list) list"
  get_history :: "(string \<times> OptimizationRecord list) list"

text \<open>
  A pandas Series is a list of (label, value) pairs in index order; a frame is a list
  of named Series. A cell of \<^verbatim>\<open>self.df\<close> holds a torsion drive, or nothing (NaN) where
  the entry has none under that specification.
\<close>

type_synonym 'a Series = "(string \<times> 'a) list"

type_synonym 'a DataFrame = "(string \<times> 'a Series) list"

















section \<open>Auxiliary notions for the statements\<close>

text \<open>
  What one hook contributes to the bulk write: an update whose identifier is the one
  the hook names and whose update document holds, per operator, the last command of
  the hook with that operator.
\<close>

definition update_of_hook ::
  "(string \<Rightarrow> error + 'i) \<Rightarrow> 'v hook \<Rightarrow> ('i, 'v) UpdateOne \<Rightarrow> bool" where
  "update_of_hook oid h u \<longleftrightarrow>
     oid (snd (document h)) = Inr (upd_id u)
     \<and> upd_commands u
         = map_of (rev (map (\<lambda>com. (''$'' @ fst com, (fst (snd com), snd (snd com))))
                          (updates h)))"

text \<open>
  A record passes the two tests of the loop of \<open>compute\<close> when it has no job under the
  specification and, if a subset is given, its name is in the subset.
\<close>

definition eligible :: "string \<Rightarrow> string set option \<Rightarrow> ('k, 'a) TDRecord \<Rightarrow> bool" where
  "eligible specification subset' rec \<longleftrightarrow>
     specification \<notin> dom (object_map rec)
     \<and> (case subset' of None \<Rightarrow> True | Some s \<Rightarrow> name rec \<in> s)"

text \<open>The effect of one pass of the loop on one entry of \<open>records\<close>.\<close>

definition record_step ::
  "string \<Rightarrow> string set option \<Rightarrow> (string \<times> ('k, 'a) TDRecord)
     \<Rightarrow> (string \<times> ('k, 'a) TDRecord) \<Rightarrow> bool" where
  "record_step specification subset' kr kr' \<longleftrightarrow>
     fst kr' = fst kr
     \<and> (if eligible specification subset' (snd kr)
        then \<exists>new_id. snd kr' =
               (snd kr)\<lparr>object_map := (object_map (snd kr))(specification \<mapsto> new_id)\<rparr>
        else snd kr' = snd kr)"

text \<open>An entry keeps its key, its name and every job identifier it has.\<close>

definition keeps_jobs ::
  "(string \<times> ('k, 'a) TDRecord) \<Rightarrow> (string \<times> ('k, 'a) TDRecord) \<Rightarrow> bool" where
  "keeps_jobs kr kr' \<longleftrightarrow>
     fst kr' = fst kr \<and> name (snd kr') = name (snd kr)
     \<and> (\<forall>sp j. object_map (snd kr) sp = Some j \<longrightarrow> object_map (snd kr') sp = Some j)"


text \<open>
  The row labels of the table \<open>counts\<close> builds: the requested entries, or with no entry
  requested the index of the first column read; none when there is no column.
\<close>

definition row_labels ::
  "TorsionDriveRecord option DataFrame \<Rightarrow> string list \<Rightarrow> string list \<Rightarrow> string list" where
  "row_labels df entries cols =
     (if entries \<noteq> [] then (case cols of [] \<Rightarrow> [] | c # _ \<Rightarrow> entries)
      else (case cols of [] \<Rightarrow> []
            | c # _ \<Rightarrow> (case map_of df c of None \<Rightarrow> [] | Some data \<Rightarrow> map fst data)))"



section \<open>Concrete inputs\<close>

text \<open>A stand-in for bcrypt, a socket with one user, and a socket with no manager.\<close>

definition ex_hashpw :: "string \<Rightarrow> string \<Rightarrow> string" where
  "ex_hashpw pw salt = ''#'' @ pw"

definition ex_checkpw :: "string \<Rightarrow> string \<Rightarrow> bool" where
  "ex_checkpw pw h = (h = ''#'' @ pw)"

definition ex_socket :: "nat socket" where
  "ex_socket =
     \<lparr>bypass_security = False,
      users = [\<lparr>username = ''george'', password = ''#shortpw'', permissions = [''read'']\<rparr>],
      queue_managers = [],
      service_queue = 0\<rparr>"

text \<open>
  Two hooks of one call that name the same service record, an identifier constructor
  that accepts the strings of 24 characters, and a bulk write that counts the
  operations it is given.
\<close>

definition ex_oid :: "string \<Rightarrow> error + string" where
  "ex_oid s = (if length s = 24 then Inr s else Inl (InvalidId s))"

definition ex_bulk_write :: "nat \<Rightarrow> (string, int) UpdateOne list \<Rightarrow> nat \<times> nat" where
  "ex_bulk_write q bulk = (length bulk, q + length bulk)"

definition ex_hooks :: "int hook list list" where
  "ex_hooks =
     [ [\<lparr>document = (''service_queue'', ''5c8a1f0e9d3b2a0001c0ffee''),
         updates = [(''inc'', ''remaining'', - 1)]\<rparr>,
        \<lparr>document = (''service_queue'', ''5c8a1f0e9d3b2a0001c0ffee''),
         updates = [(''set'', ''step'', 4)]\<rparr>] ]"

text \<open>
  A dataset with the entries \<open>a\<close>, \<open>b\<close>, \<open>c\<close> and the specification \<open>default\<close>; a client
  that numbers the services it is given; the dataset after \<open>compute\<close> for all entries,
  and after \<open>compute\<close> for the subset \<open>{a}\<close>.
\<close>

definition ex_add_service ::
  "nat \<Rightarrow> (nat, nat, nat) TorsionDriveInput \<Rightarrow> string option \<Rightarrow> string option \<Rightarrow> ObjectId \<times> nat" where
  "ex_add_service c service tag priority = (''job'' @ replicate c CHR ''+'', c + 1)"

definition ex_save :: "(nat, unit, nat, nat) DataModel \<Rightarrow> nat \<Rightarrow> nat" where
  "ex_save d c = c"

definition ex_record :: "string \<Rightarrow> (string \<rightharpoonup> ObjectId) \<Rightarrow> (nat, unit) TDRecord" where
  "ex_record n om =
     \<lparr>name = n, initial_molecules = [''mol-'' @ n], td_keywords = 15, attributes = (),
      object_map = om\<rparr>"

definition ex_specs :: "string \<rightharpoonup> (nat, nat) TorsionDriveSpecification" where
  "ex_specs =
     [''default'' \<mapsto> \<lparr>spec_name = ''default'', description = None,
                       optimization_spec = 1, qc_spec = 2\<rparr>]"

definition ex_data :: "(nat, unit, nat, nat) DataModel" where
  "ex_data =
     \<lparr>records = [(''a'', ex_record ''a'' Map.empty), (''b'', ex_record ''b'' Map.empty),
                 (''c'', ex_record ''c'' Map.empty)],
      history = {}, specs = ex_specs\<rparr>"

definition ex_data_all :: "(nat, unit, nat, nat) DataModel" where
  "ex_data_all =
     \<lparr>records = [(''a'', ex_record ''a'' [''default'' \<mapsto> ''job'']),
                 (''b'', ex_record ''b'' [''default'' \<mapsto> ''job+'']),
                 (''c'', ex_record ''c'' [''default'' \<mapsto> ''job++''])],
      history = {''default''}, specs = ex_specs\<rparr>"

definition ex_data_a :: "(nat, unit, nat, nat) DataModel" where
  "ex_data_a =
     \<lparr>records = [(''a'', ex_record ''a'' [''default'' \<mapsto> ''job'']),
                 (''b'', ex_record ''b'' Map.empty),
                 (''c'', ex_record ''c'' Map.empty)],
      history = {''default''}, specs = ex_specs\<rparr>"





section \<open>Properties of the storage socket\<close>

subsection \<open>Users\<close>

lemma find_app:
  "find p (xs @ ys) = (case find p xs of None \<Rightarrow> find p ys | Some x \<Rightarrow> Some x)"
  by (induction xs) auto

lemma find_one_None_iff: "find_one tbl n = None \<longleftrightarrow> n \<notin> username ` set tbl"
  by (auto simp: find_one_def find_None_iff)


text \<open>
  C7. With the bypass flag set, \<open>verify_user\<close> answers \<open>(True, "Success")\<close> whatever the
  username, the password, the requested permission and the content of the users table.
\<close>

theorem verify_user_bypass:
  "verify_user checkpw (self\<lparr>bypass_security := True\<rparr>) uname pw permission
     = (True, ''Success'')"
  by (simp add: verify_user_def)

theorem verify_user_bypass_witness:
  "verify_user ex_checkpw (ex_socket\<lparr>bypass_security := True\<rparr>) ''anyone'' ''anything'' ''admin''
     = (True, ''Success'')"
  by (rule verify_user_bypass)



text \<open>
  C9. For every stored user record, \<open>add_user\<close> with that record's username returns
  False and hands back the socket as it was: the users table, and with it the record's
  password hash and permissions, is the same before and after the call.
\<close>

theorem add_user_existing:
  "u \<in> set (users self) \<Longrightarrow>
     add_user hashpw salt self (username u) pw perms = Inr (False, self)"
proof -
  assume "u \<in> set (users self)"
  then have "find_one (users self) (username u) \<noteq> None"
    by (simp add: find_one_None_iff)
  then show ?thesis
    by (auto simp: add_user_def insert_one_def)
qed

theorem add_user_existing_witness:
  "add_user ex_hashpw ''salt'' ex_socket ''george'' ''other'' (Some [''admin''])
     = Inr (False, ex_socket)"
proof -
  have "\<lparr>username = ''george'', password = ''#shortpw'', permissions = [''read'']\<rparr>
          \<in> set (users ex_socket)"
    by (simp add: ex_socket_def)
  from add_user_existing
         [OF this, where hashpw = ex_hashpw and salt = "''salt''" and pw = "''other''"
            and perms = "Some [''admin'']"]
  show ?thesis by simp
qed

text \<open>
  C10. For a username that is not stored yet, \<open>add_user\<close> without permissions returns
  True and appends one record, whose permissions are exactly \<open>["read"]\<close>; that record is
  what the table then holds for the username.
\<close>

theorem add_user_default_permissions:
  "find_one (users self) uname = None \<Longrightarrow>
     add_user hashpw salt self uname pw None
       = Inr (True, self\<lparr>users := users self
                @ [\<lparr>username = uname, password = hashpw pw salt, permissions = [''read'']\<rparr>]\<rparr>)
     \<and> find_one (users self
                @ [\<lparr>username = uname, password = hashpw pw salt, permissions = [''read'']\<rparr>]) uname
         = Some \<lparr>username = uname, password = hashpw pw salt, permissions = [''read'']\<rparr>"
proof -
  assume fresh: "find_one (users self) uname = None"
  have "find_one (users self
          @ [\<lparr>username = uname, password = hashpw pw salt, permissions = [''read'']\<rparr>]) uname
          = Some \<lparr>username = uname, password = hashpw pw salt, permissions = [''read'']\<rparr>"
    using fresh by (simp add: find_one_def find_app)
  with fresh show ?thesis
    by (simp add: add_user_def insert_one_def)
qed

theorem add_user_default_permissions_witness:
  "add_user ex_hashpw ''salt'' ex_socket ''alice'' ''pw'' None
     = Inr (True, ex_socket\<lparr>users :=
         [\<lparr>username = ''george'', password = ''#shortpw'', permissions = [''read'']\<rparr>,
          \<lparr>username = ''alice'', password = ''#pw'', permissions = [''read'']\<rparr>]\<rparr>)"
proof -
  have "find_one (users ex_socket) ''alice'' = None"
    by (simp add: ex_socket_def find_one_def)
  from add_user_default_permissions
         [OF this, where hashpw = ex_hashpw and salt = "''salt''" and pw = "''pw''"]
  show ?thesis by (simp add: ex_socket_def ex_hashpw_def)
qed

subsection \<open>Queue managers\<close>

lemma update_first_None: "update_first p f xs = None \<longleftrightarrow> find p xs = None"
  by (induction xs) auto

lemma update_first_find:
  "(\<And>x. p x \<Longrightarrow> p (f x)) \<Longrightarrow> update_first p f xs = Some ys
     \<Longrightarrow> find p ys = map_option f (find p xs)"
  by (induction xs arbitrary: ys) (auto split: if_splits)

text \<open>The manager stored under a name after one heartbeat.\<close>

lemma manager_update_get:
  "get_manager (snd (manager_update self dt nm tag s c f r)) nm =
     Some (case get_manager self nm of
             None \<Rightarrow> \<lparr>mgr_name = nm, created_on = dt, mgr_tag = tag, modifed_on = dt,
                      submitted = s, completed = c, returned = r, failures = f\<rparr>
           | Some m \<Rightarrow> m\<lparr>modifed_on := dt, submitted := submitted m + s,
                        completed := completed m + c, returned := returned m + r,
                        failures := failures m + f\<rparr>)"
proof (cases "update_first (\<lambda>m. mgr_name m = nm)
                (\<lambda>m. m\<lparr>modifed_on := dt, submitted := submitted m + s,
                        completed := completed m + c, returned := returned m + r,
                        failures := failures m + f\<rparr>) (queue_managers self)")
  case None
  then have "find (\<lambda>m. mgr_name m = nm) (queue_managers self) = None"
    by (simp add: update_first_None)
  with None show ?thesis
    by (simp add: manager_update_def update_one_def get_manager_def find_app)
next
  case (Some ys)
  have "find (\<lambda>m. mgr_name m = nm) ys
          = map_option (\<lambda>m. m\<lparr>modifed_on := dt, submitted := submitted m + s,
                        completed := completed m + c, returned := returned m + r,
                        failures := failures m + f\<rparr>)
              (find (\<lambda>m. mgr_name m = nm) (queue_managers self))"
    by (rule update_first_find [OF _ Some]) simp
  moreover have "find (\<lambda>m. mgr_name m = nm) (queue_managers self) \<noteq> None"
    using Some
    by (simp flip: update_first_None
          [where f = "\<lambda>m. m\<lparr>modifed_on := dt, submitted := submitted m + s,
                        completed := completed m + c, returned := returned m + r,
                        failures := failures m + f\<rparr>"])
  ultimately show ?thesis using Some
    by (auto simp: manager_update_def update_one_def get_manager_def)
qed

text \<open>The value \<open>manager_update\<close> returns: whether the manager was stored before the call.\<close>

lemma manager_update_fst:
  "fst (manager_update self dt nm tag s c f r) \<longleftrightarrow> get_manager self nm \<noteq> None"
  by (simp add: manager_update_def update_one_def get_manager_def
           flip: update_first_None
             [where f = "\<lambda>m. m\<lparr>modifed_on := dt, submitted := submitted m + s,
                        completed := completed m + c, returned := returned m + r,
                        failures := failures m + f\<rparr>"]
           split: option.splits)

text \<open>
  C3. The first heartbeat of a manager, on a table that does not hold it: the upsert
  creates the record, nothing was matched, and \<open>manager_update\<close> returns False.
\<close>

theorem manager_update_first_heartbeat:
  "manager_update ex_socket 10 ''w1'' None 1 0 0 0
     = (False,
        ex_socket\<lparr>queue_managers :=
          [\<lparr>mgr_name = ''w1'', created_on = 10, mgr_tag = None, modifed_on = 10,
            submitted = 1, completed = 0, returned = 0, failures = 0\<rparr>]\<rparr>)"
  by (simp add: manager_update_def update_one_def ex_socket_def)

text \<open>
  C4. After two heartbeats of one manager, each of its four counters is the value
  stored before the first (0 for a manager not stored yet) plus the two deltas, and
  the modification date (key \<open>modifed_on\<close>) is the date of the second heartbeat.
\<close>

theorem manager_update_additive:
  "\<exists>m. get_manager
          (snd (manager_update (snd (manager_update self dt1 nm tag1 s1 c1 f1 r1))
                  dt2 nm tag2 s2 c2 f2 r2)) nm = Some m
     \<and> submitted m = (case get_manager self nm of None \<Rightarrow> 0 | Some m0 \<Rightarrow> submitted m0) + s1 + s2
     \<and> completed m = (case get_manager self nm of None \<Rightarrow> 0 | Some m0 \<Rightarrow> completed m0) + c1 + c2
     \<and> returned m = (case get_manager self nm of None \<Rightarrow> 0 | Some m0 \<Rightarrow> returned m0) + r1 + r2
     \<and> failures m = (case get_manager self nm of None \<Rightarrow> 0 | Some m0 \<Rightarrow> failures m0) + f1 + f2
     \<and> modifed_on m = dt2"
  by (simp add: manager_update_get split: option.splits)

theorem manager_update_additive_witness:
  "map_option submitted
     (get_manager
        (snd (manager_update (snd (manager_update ex_socket 10 ''w1'' None 1 0 0 0))
                20 ''w1'' None 2 0 0 0)) ''w1'') = Some 3"
  using manager_update_additive [of ex_socket 10 "''w1''" None 1 0 0 0 20 None 2 0 0 0]
  by (auto simp: get_manager_def ex_socket_def)

subsection \<open>Hooks\<close>

lemma hook_commands_map_of:
  "hook_commands ups m
     = m ++ map_of (rev (map (\<lambda>com. (''$'' @ fst com, (fst (snd com), snd (snd com)))) ups))"
proof (induction ups arbitrary: m)
  case Nil
  then show ?case by simp
next
  case (Cons com ups)
  show ?case
  proof (rule ext)
    fix k
    show "hook_commands (com # ups) m k
            = (m ++ map_of (rev (map (\<lambda>com. (''$'' @ fst com, (fst (snd com), snd (snd com))))
                                   (com # ups)))) k"
      by (simp add: Cons.IH map_add_def split: option.splits)
  qed
qed

lemma hook_list_loop_Inr:
  "hook_list_loop oid hs acc = Inr bulk
     \<Longrightarrow> \<exists>new. bulk = acc @ new \<and> list_all2 (update_of_hook oid) hs new"
proof (induction hs arbitrary: acc)
  case Nil
  then show ?case by simp
next
  case (Cons h hs)
  from Cons.prems obtain i where i: "oid (snd (document h)) = Inr i"
    and rest: "hook_list_loop oid hs
                 (acc @ [\<lparr>upd_id = i, upd_commands = hook_commands (updates h) Map.empty\<rparr>])
                 = Inr bulk"
    by (auto simp: Let_def split: sum.splits)
  from Cons.IH [OF rest] obtain new where
    new: "bulk = (acc @ [\<lparr>upd_id = i, upd_commands = hook_commands (updates h) Map.empty\<rparr>]) @ new"
      "list_all2 (update_of_hook oid) hs new"
    by blast
  have "update_of_hook oid h \<lparr>upd_id = i, upd_commands = hook_commands (updates h) Map.empty\<rparr>"
    using i by (simp add: update_of_hook_def hook_commands_map_of)
  with new show ?case by auto
qed

lemma hooks_loop_Inr:
  "hooks_loop oid hooks acc = Inr bulk
     \<Longrightarrow> \<exists>new. bulk = acc @ new \<and> list_all2 (update_of_hook oid) (concat hooks) new"
proof (induction hooks arbitrary: acc)
  case Nil
  then show ?case by simp
next
  case (Cons hl hooks)
  from Cons.prems obtain mid where mid: "hook_list_loop oid hl acc = Inr mid"
    and rest: "hooks_loop oid hooks mid = Inr bulk"
    by (auto split: sum.splits)
  from hook_list_loop_Inr [OF mid] obtain n1 where n1: "mid = acc @ n1"
    "list_all2 (update_of_hook oid) hl n1" by blast
  from Cons.IH [OF rest] obtain n2 where n2: "bulk = mid @ n2"
    "list_all2 (update_of_hook oid) (concat hooks) n2" by blast
  from n1 n2 have "bulk = acc @ (n1 @ n2)" by simp
  moreover from n1 n2 have "list_all2 (update_of_hook oid) (concat (hl # hooks)) (n1 @ n2)"
    by (simp add: list_all2_appendI)
  ultimately show ?case by blast
qed

text \<open>
  C2, as the spec has it, fails: two hooks of one call that name the same record give
  two update operations with the same identifier, not one merged update.
\<close>

theorem handle_hooks_not_merged:
  "hooks_loop ex_oid ex_hooks []
     = Inr [\<lparr>upd_id = ''5c8a1f0e9d3b2a0001c0ffee'',
             upd_commands = [''$inc'' \<mapsto> (''remaining'', - 1)]\<rparr>,
            \<lparr>upd_id = ''5c8a1f0e9d3b2a0001c0ffee'',
             upd_commands = [''$set'' \<mapsto> (''step'', 4)]\<rparr>]
   \<and> \<not> single_update_per_record
          [\<lparr>upd_id = ''5c8a1f0e9d3b2a0001c0ffee'',
             upd_commands = [''$inc'' \<mapsto> (''remaining'', - 1 :: int)]\<rparr>,
            \<lparr>upd_id = ''5c8a1f0e9d3b2a0001c0ffee'',
             upd_commands = [''$set'' \<mapsto> (''step'', 4)]\<rparr>]
   \<and> handle_hooks ex_oid ex_bulk_write ex_socket ex_hooks
       = Inr (Some 2, ex_socket\<lparr>service_queue := 2\<rparr>)"
  by (simp add: ex_hooks_def ex_oid_def single_update_per_record_def handle_hooks_def
        ex_bulk_write_def ex_socket_def)

text \<open>
  C2, amended. A call of \<open>handle_hooks\<close> that returns has built one update operation
  per hook, in the order of the hooks: the operation of a hook is aimed at the record
  the hook names and carries the hook's commands in one update document, per operator
  the last command with that operator. Nothing is written when there is no hook;
  otherwise all operations go to the driver in a single bulk write.
\<close>

theorem handle_hooks_one_update_per_hook:
  "handle_hooks oid bulk_write self hooks = Inr (ret, self') \<Longrightarrow>
     \<exists>bulk. hooks_loop oid hooks [] = Inr bulk
       \<and> length bulk = length (concat hooks)
       \<and> (\<forall>i < length bulk. update_of_hook oid (concat hooks ! i) (bulk ! i))
       \<and> (if bulk = [] then ret = None \<and> self' = self
          else ret = Some (fst (bulk_write (service_queue self) bulk))
               \<and> self' = self\<lparr>service_queue := snd (bulk_write (service_queue self) bulk)\<rparr>)"
proof -
  assume h: "handle_hooks oid bulk_write self hooks = Inr (ret, self')"
  then obtain bulk where bulk: "hooks_loop oid hooks [] = Inr bulk"
    by (auto simp: handle_hooks_def split: sum.splits)
  from hooks_loop_Inr [OF bulk] have la: "list_all2 (update_of_hook oid) (concat hooks) bulk"
    by simp
  then have len: "length bulk = length (concat hooks)"
    by (simp add: list_all2_lengthD)
  from la have nth: "\<forall>i < length bulk. update_of_hook oid (concat hooks ! i) (bulk ! i)"
    by (simp add: list_all2_conv_all_nth)
  from h bulk have "if bulk = [] then ret = None \<and> self' = self
          else ret = Some (fst (bulk_write (service_queue self) bulk))
               \<and> self' = self\<lparr>service_queue := snd (bulk_write (service_queue self) bulk)\<rparr>"
    by (auto simp: handle_hooks_def split: prod.splits)
  with bulk len nth show ?thesis by blast
qed

theorem handle_hooks_one_update_per_hook_witness:
  "handle_hooks ex_oid ex_bulk_write ex_socket ex_hooks
     = Inr (Some 2, ex_socket\<lparr>service_queue := 2\<rparr>)
   \<and> length (projr (hooks_loop ex_oid ex_hooks [])) = 2"
proof -
  have h: "handle_hooks ex_oid ex_bulk_write ex_socket ex_hooks
       = Inr (Some 2, ex_socket\<lparr>service_queue := 2\<rparr>)"
    by (simp add: ex_hooks_def ex_oid_def handle_hooks_def ex_bulk_write_def ex_socket_def)
  from handle_hooks_one_update_per_hook [OF h] obtain bulk where
    "hooks_loop ex_oid ex_hooks [] = Inr bulk" "length bulk = length (concat ex_hooks)"
    by blast
  with h show ?thesis by (simp add: ex_hooks_def)
qed

section \<open>Properties of the dataset\<close>

subsection \<open>compute\<close>

lemma compute_record_skip:
  "\<not> eligible sp S r \<Longrightarrow> compute_record add sp spec S tag prio r cl n = (r, cl, n)"
  by (auto simp: compute_record_def eligible_def split: option.splits)

lemma compute_record_submit:
  "eligible sp S r \<Longrightarrow>
     compute_record add sp spec S tag prio r cl n =
       (r\<lparr>object_map := (object_map r)(sp \<mapsto>
            fst (add cl \<lparr>initial_molecule = initial_molecules r, in_keywords = td_keywords r,
                         in_optimization_spec = optimization_spec spec,
                         in_qc_spec = qc_spec spec\<rparr> tag prio))\<rparr>,
        snd (add cl \<lparr>initial_molecule = initial_molecules r, in_keywords = td_keywords r,
                         in_optimization_spec = optimization_spec spec,
                         in_qc_spec = qc_spec spec\<rparr> tag prio),
        n + 1)"
  by (auto simp: compute_record_def eligible_def Let_def split: option.splits prod.splits)

lemma compute_loop_steps:
  "compute_loop add sp spec S tag prio recs cl n = (recs', cl', n')
     \<Longrightarrow> list_all2 (record_step sp S) recs recs'
         \<and> n' = n + length (filter (\<lambda>kr. eligible sp S (snd kr)) recs)"
proof (induction recs arbitrary: cl n recs' cl' n')
  case Nil
  then show ?case by simp
next
  case (Cons kr recs)
  obtain k r where kr: "kr = (k, r)" by (cases kr)
  obtain r1 cl1 n1 where one: "compute_record add sp spec S tag prio r cl n = (r1, cl1, n1)"
    by (cases "compute_record add sp spec S tag prio r cl n")
  obtain rest2 cl2 n2 where two: "compute_loop add sp spec S tag prio recs cl1 n1 = (rest2, cl2, n2)"
    by (cases "compute_loop add sp spec S tag prio recs cl1 n1")
  from Cons.prems kr one two have res: "recs' = (k, r1) # rest2" "n' = n2" by simp_all
  from Cons.IH [OF two] have ih: "list_all2 (record_step sp S) recs rest2"
    "n2 = n1 + length (filter (\<lambda>kr. eligible sp S (snd kr)) recs)" by simp_all
  show ?case
  proof (cases "eligible sp S r")
    case True
    with one compute_record_submit [OF True, of add spec tag prio cl n]
    have "record_step sp S (k, r) (k, r1)" "n1 = n + 1"
      by (auto simp: record_step_def)
    with ih res kr True show ?thesis by simp
  next
    case False
    with one compute_record_skip [OF False, of add spec tag prio cl n]
    have "record_step sp S (k, r) (k, r1)" "n1 = n"
      by (auto simp: record_step_def)
    with ih res kr False show ?thesis by simp
  qed
qed

lemma compute_loop_no_eligible:
  "\<forall>kr \<in> set recs. \<not> eligible sp S (snd kr)
     \<Longrightarrow> compute_loop add sp spec S tag prio recs cl n = (recs, cl, n)"
  by (induction recs arbitrary: cl n) (auto simp: compute_record_skip)

lemma record_step_not_eligible:
  "record_step sp S kr kr' \<Longrightarrow> \<not> eligible sp S (snd kr')"
  by (cases "eligible sp S (snd kr)") (auto simp: record_step_def eligible_def)

lemma steps_not_eligible:
  "list_all2 (record_step sp S) recs recs' \<Longrightarrow> \<forall>kr \<in> set recs'. \<not> eligible sp S (snd kr)"
  by (induction rule: list_all2_induct) (auto dest: record_step_not_eligible)

lemma record_step_has_key:
  "record_step sp None kr kr' \<Longrightarrow> sp \<in> dom (object_map (snd kr'))"
  by (auto simp: record_step_def eligible_def split: if_splits)

lemma steps_have_key:
  "list_all2 (record_step sp None) recs recs' \<Longrightarrow> \<forall>kr \<in> set recs'. sp \<in> dom (object_map (snd kr))"
  by (induction rule: list_all2_induct) (auto dest: record_step_has_key)


lemma record_step_keeps: "record_step sp S kr kr' \<Longrightarrow> keeps_jobs kr kr'"
  by (auto simp: record_step_def keeps_jobs_def eligible_def split: if_splits)

lemma keeps_jobs_refl: "list_all2 keeps_jobs recs recs"
  by (simp add: list_all2_refl keeps_jobs_def)

lemma keeps_jobs_trans:
  "list_all2 keeps_jobs xs ys \<Longrightarrow> list_all2 keeps_jobs ys zs \<Longrightarrow> list_all2 keeps_jobs xs zs"
proof -
  assume a: "list_all2 keeps_jobs xs ys" and b: "list_all2 keeps_jobs ys zs"
  show ?thesis
    by (rule list_all2_trans [OF _ a b]) (auto simp: keeps_jobs_def)
qed

lemma compute_keeps:
  "compute add save data cl s S tag prio = Inr (n, data', cl')
     \<Longrightarrow> list_all2 keeps_jobs (records data) (records data')"
proof -
  assume c: "compute add save data cl s S tag prio = Inr (n, data', cl')"
  then obtain spec where "get_specification data (lower s) = Inr spec"
    by (auto simp: compute_def Let_def split: sum.splits)
  moreover obtain recs c1 n1 where
    l: "compute_loop add (lower s) spec S tag prio (records data) cl 0 = (recs, c1, n1)"
    by (cases "compute_loop add (lower s) spec S tag prio (records data) cl 0")
  ultimately have "records data' = recs" using c
    by (auto simp: compute_def Let_def)
  moreover from compute_loop_steps [OF l] have "list_all2 keeps_jobs (records data) recs"
    by (auto intro: list_all2_mono record_step_keeps)
  ultimately show ?thesis by simp
qed

lemma compute_calls_keeps:
  "list_all2 keeps_jobs (records data) (records (fst (compute_calls add save data cl cs)))"
proof (induction cs arbitrary: data cl)
  case Nil
  then show ?case by (simp add: keeps_jobs_refl)
next
  case (Cons c cs)
  show ?case
  proof (cases "compute add save data cl (call_specification c) (call_subset c) (call_tag c) (call_priority c)")
    case (Inl e)
    then show ?thesis using Cons.IH [of data cl] by simp
  next
    case (Inr res)
    obtain n d1 c1 where res: "res = (n, d1, c1)" by (cases res)
    from Inr res have "list_all2 keeps_jobs (records data) (records d1)"
      by (auto intro: compute_keeps)
    with Cons.IH [of d1 c1] Inr res show ?thesis
      by (auto intro: keeps_jobs_trans)
  qed
qed



lemma lower_Default: "lower ''Default'' = ''default''"
  by (simp add: lower_def lower_char_def)

lemma lower_default: "lower ''default'' = ''default''"
  by (simp add: lower_def lower_char_def)

lemma ex_compute_all:
  "compute ex_add_service ex_save ex_data 0 ''Default'' None None None
     = Inr (3, ex_data_all, 3)"
  by (simp add: compute_def Let_def get_specification_def lower_Default lower_default ex_data_def
        ex_specs_def compute_record_def ex_record_def ex_add_service_def ex_save_def
        ex_data_all_def)

lemma ex_compute_a:
  "compute ex_add_service ex_save ex_data 0 ''Default'' (Some {''a''}) None None
     = Inr (1, ex_data_a, 1)"
  by (simp add: compute_def Let_def get_specification_def lower_Default lower_default ex_data_def
        ex_specs_def compute_record_def ex_record_def ex_add_service_def ex_save_def
        ex_data_a_def)

lemma compute_Inr:
  "compute add save data cl s S tag prio = Inr (n, data1, cl1) \<Longrightarrow>
     \<exists>spec recs c1. get_specification data (lower s) = Inr spec
       \<and> compute_loop add (lower s) spec S tag prio (records data) cl 0 = (recs, c1, n)
       \<and> data1 = data\<lparr>records := recs, history := insert (lower s) (history data)\<rparr>
       \<and> cl1 = save data1 c1"
  by (auto simp: compute_def Let_def split: sum.splits prod.splits)

lemma compute_loop_snd_Cons:
  "snd (compute_loop add sp spec S tag prio ((k, r) # recs) cl n)
     = snd (compute_loop add sp spec S tag prio recs
              (fst (snd (compute_record add sp spec S tag prio r cl n)))
              (snd (snd (compute_record add sp spec S tag prio r cl n))))"
  by (simp split: prod.splits)

lemma compute_loop_filter:
  "snd (compute_loop add sp spec (Some S) tag prio recs cl n)
     = snd (compute_loop add sp spec (Some S) tag prio
              (filter (\<lambda>kr. name (snd kr) \<in> S) recs) cl n)"
proof (induction recs arbitrary: cl n)
  case Nil
  then show ?case by simp
next
  case (Cons kr recs)
  obtain k r where kr: "kr = (k, r)" by (cases kr)
  show ?case
  proof (cases "name r \<in> S")
    case True
    then have "filter (\<lambda>kr. name (snd kr) \<in> S) (kr # recs)
                 = (k, r) # filter (\<lambda>kr. name (snd kr) \<in> S) recs"
      using kr by simp
    then show ?thesis
      unfolding kr by (simp only: compute_loop_snd_Cons Cons.IH)
  next
    case False
    then have ne: "\<not> eligible sp (Some S) r" by (simp add: eligible_def)
    from False kr have "filter (\<lambda>kr. name (snd kr) \<in> S) (kr # recs)
                 = filter (\<lambda>kr. name (snd kr) \<in> S) recs"
      by simp
    then show ?thesis
      unfolding kr
      by (simp only: compute_loop_snd_Cons compute_record_skip [OF ne] fst_conv snd_conv Cons.IH)
  qed
qed

text \<open>
  C1. When a call of \<open>compute\<close> has returned, the same call made again on the result
  submits nothing: it returns 0 and leaves the data as they are; with no subset, every
  record holds the (lower-cased) specification as a key of its \<open>object_map\<close> after the
  first call. And across any sequence of calls of \<open>compute\<close>, a job identifier recorded
  for an entry under a specification stays as it is: no second identifier is ever
  recorded for the pair.
\<close>

theorem compute_idempotent:
  "(compute add_service save data client s subset' tag priority = Inr (n, data1, client1) \<longrightarrow>
      compute add_service save data1 client1 s subset' tag priority
        = Inr (0, data1, save data1 client1)
      \<and> (subset' = None \<longrightarrow> (\<forall>kr \<in> set (records data1). lower s \<in> dom (object_map (snd kr)))))
   \<and> (\<forall>i sp j. i < length (records data) \<and> object_map (snd (records data ! i)) sp = Some j \<longrightarrow>
        i < length (records (fst (compute_calls add_service save data client calls)))
        \<and> fst (records (fst (compute_calls add_service save data client calls)) ! i)
            = fst (records data ! i)
        \<and> object_map (snd (records (fst (compute_calls add_service save data client calls)) ! i)) sp
            = Some j)"
proof (intro conjI impI allI)
  assume c: "compute add_service save data client s subset' tag priority = Inr (n, data1, client1)"
  from compute_Inr [OF c] obtain spec recs c1 where
    gs: "get_specification data (lower s) = Inr spec"
    and loop: "compute_loop add_service (lower s) spec subset' tag priority (records data) client 0
                 = (recs, c1, n)"
    and d1: "data1 = data\<lparr>records := recs, history := insert (lower s) (history data)\<rparr>"
    and cl1: "client1 = save data1 c1"
    by blast
  from compute_loop_steps [OF loop]
  have steps: "list_all2 (record_step (lower s) subset') (records data) recs" by simp
  from gs d1 have gs1: "get_specification data1 (lower s) = Inr spec"
    by (simp add: get_specification_def)
  from steps_not_eligible [OF steps] d1
  have "compute_loop add_service (lower s) spec subset' tag priority (records data1) client1 0
          = (records data1, client1, 0)"
    by (simp add: compute_loop_no_eligible)
  moreover from d1 have "data1\<lparr>records := records data1,
                            history := insert (lower s) (history data1)\<rparr> = data1"
    by simp
  ultimately show "compute add_service save data1 client1 s subset' tag priority
        = Inr (0, data1, save data1 client1)"
    using gs1 by (simp add: compute_def)
  show "\<forall>kr \<in> set (records data1). lower s \<in> dom (object_map (snd kr))" if "subset' = None"
    using steps_have_key [of "lower s" "records data" recs] steps d1 that by simp
next
  fix i sp j
  assume a: "i < length (records data) \<and> object_map (snd (records data ! i)) sp = Some j"
  let ?recs = "records (fst (compute_calls add_service save data client calls))"
  have k: "list_all2 keeps_jobs (records data) ?recs"
    by (rule compute_calls_keeps)
  then have len: "length ?recs = length (records data)"
    by (simp add: list_all2_lengthD)
  from k a have ki: "keeps_jobs (records data ! i) (?recs ! i)"
    by (simp add: list_all2_nthD)
  from len a show "i < length ?recs" by simp
  from ki show "fst (?recs ! i) = fst (records data ! i)" by (simp add: keeps_jobs_def)
  from ki a show "object_map (snd (?recs ! i)) sp = Some j" by (simp add: keeps_jobs_def)
qed

theorem compute_idempotent_witness:
  "compute ex_add_service ex_save ex_data 0 ''Default'' None None None = Inr (3, ex_data_all, 3)
   \<and> compute ex_add_service ex_save ex_data_all 3 ''Default'' None None None
       = Inr (0, ex_data_all, 3)
   \<and> object_map
        (snd (records (fst (compute_calls ex_add_service ex_save ex_data_a 1
           [\<lparr>call_specification = ''DEFAULT'', call_subset = None,
             call_tag = None, call_priority = None\<rparr>])) ! 0)) ''default'' = Some ''job''"
proof -
  have a: "0 < length (records ex_data_a)
             \<and> object_map (snd (records ex_data_a ! 0)) ''default'' = Some ''job''"
    by (simp add: ex_data_a_def ex_record_def)
  from compute_idempotent
         [where add_service = ex_add_service and save = ex_save and data = ex_data
            and client = 0 and s = "''Default''" and subset' = None and tag = None
            and priority = None and n = 3 and ?data1.0 = ex_data_all and ?client1.0 = 3]
       ex_compute_all
  have 1: "compute ex_add_service ex_save ex_data_all 3 ''Default'' None None None
       = Inr (0, ex_data_all, 3)"
    by (simp add: ex_save_def)
  from compute_idempotent
         [where add_service = ex_add_service and save = ex_save and data = ex_data_a
            and client = 1
            and calls = "[\<lparr>call_specification = ''DEFAULT'', call_subset = None,
                           call_tag = None, call_priority = None\<rparr>]"] a
  have 2: "object_map
        (snd (records (fst (compute_calls ex_add_service ex_save ex_data_a 1
           [\<lparr>call_specification = ''DEFAULT'', call_subset = None,
             call_tag = None, call_priority = None\<rparr>])) ! 0)) ''default'' = Some ''job''"
    by blast
  from ex_compute_all 1 2 show ?thesis by simp
qed

text \<open>
  C6. A call of \<open>compute\<close> with a subset that returns leaves every record whose name is
  outside the subset as it was; the number it returns counts the records that are in
  the subset and have no job under the specification; and the client sees exactly the
  submissions it would see on the dataset restricted to the entries of the subset.
\<close>

theorem compute_subset:
  "compute add_service save data client s (Some S) tag priority = Inr (n, data', client') \<Longrightarrow>
     length (records data') = length (records data)
     \<and> (\<forall>i < length (records data).
          name (snd (records data ! i)) \<notin> S \<longrightarrow> records data' ! i = records data ! i)
     \<and> n = length (filter (\<lambda>kr. name (snd kr) \<in> S \<and> lower s \<notin> dom (object_map (snd kr)))
                     (records data))
     \<and> (\<forall>spec. snd (compute_loop add_service (lower s) spec (Some S) tag priority
                       (records data) client 0)
              = snd (compute_loop add_service (lower s) spec (Some S) tag priority
                       (filter (\<lambda>kr. name (snd kr) \<in> S) (records data)) client 0))"
proof -
  assume c: "compute add_service save data client s (Some S) tag priority = Inr (n, data', client')"
  from compute_Inr [OF c] obtain spec recs c1 where
    loop: "compute_loop add_service (lower s) spec (Some S) tag priority (records data) client 0
                 = (recs, c1, n)"
    and d1: "data' = data\<lparr>records := recs, history := insert (lower s) (history data)\<rparr>"
    by blast
  from compute_loop_steps [OF loop]
  have steps: "list_all2 (record_step (lower s) (Some S)) (records data) recs"
    and cnt: "n = length (filter (\<lambda>kr. eligible (lower s) (Some S) (snd kr)) (records data))"
    by simp_all
  from steps d1 have len: "length (records data') = length (records data)"
    by (simp add: list_all2_lengthD)
  have same: "\<forall>i < length (records data).
          name (snd (records data ! i)) \<notin> S \<longrightarrow> records data' ! i = records data ! i"
  proof (intro allI impI)
    fix i
    assume i: "i < length (records data)" and out: "name (snd (records data ! i)) \<notin> S"
    from steps i have "record_step (lower s) (Some S) (records data ! i) (recs ! i)"
      by (simp add: list_all2_nthD)
    with out d1 show "records data' ! i = records data ! i"
      by (simp add: record_step_def eligible_def prod_eq_iff)
  qed
  have "(\<lambda>kr. eligible (lower s) (Some S) (snd kr))
          = (\<lambda>kr :: string \<times> ('a, 'b) TDRecord.
               name (snd kr) \<in> S \<and> lower s \<notin> dom (object_map (snd kr)))"
    by (auto simp: eligible_def)
  with cnt have cnt': "n = length (filter
          (\<lambda>kr. name (snd kr) \<in> S \<and> lower s \<notin> dom (object_map (snd kr))) (records data))"
    by simp
  have flt: "\<forall>spec. snd (compute_loop add_service (lower s) spec (Some S) tag priority
                       (records data) client 0)
              = snd (compute_loop add_service (lower s) spec (Some S) tag priority
                       (filter (\<lambda>kr. name (snd kr) \<in> S) (records data)) client 0)"
    by (intro allI) (rule compute_loop_filter)
  from len same cnt' flt show ?thesis by (intro conjI)
qed

theorem compute_subset_witness:
  "compute ex_add_service ex_save ex_data 0 ''Default'' (Some {''a''}) None None
     = Inr (1, ex_data_a, 1)
   \<and> records ex_data_a ! 1 = records ex_data ! 1
   \<and> records ex_data_a ! 2 = records ex_data ! 2"
proof -
  have n: "name (snd (records ex_data ! 1)) \<notin> {''a''}"
    "name (snd (records ex_data ! 2)) \<notin> {''a''}"
    "1 < length (records ex_data)" "2 < length (records ex_data)"
    by (simp_all add: ex_data_def ex_record_def)
  from compute_subset [OF ex_compute_a]
  have "\<forall>i < length (records ex_data).
          name (snd (records ex_data ! i)) \<notin> {''a''} \<longrightarrow> records ex_data_a ! i = records ex_data ! i"
    by (elim conjE)
  with n have "records ex_data_a ! 1 = records ex_data ! 1"
    "records ex_data_a ! 2 = records ex_data ! 2"
    by blast+
  with ex_compute_a show ?thesis by simp
qed

subsection \<open>counts\<close>










lemma row_labels_any:
  "map_of df c \<noteq> None \<Longrightarrow> entries \<noteq> [] \<Longrightarrow> row_labels df entries [c] = entries"
  by (simp add: row_labels_def)












end
